theory Spec2Isabelle
  imports Main "HOL-Library.AList" "HOL-Library.Sublist"
begin

section \<open>Values, dictionaries and data frames\<close>

text \<open>
  A cell of a BigQuery result as pandas hands it over: a missing value (\<open>NaN\<close>, which
  \<open>dropna\<close> removes), a boolean, an integer or a string.
\<close>

datatype pyval = NaN | PBool bool | PInt int | PStr string

text \<open>The exceptions the indexer's own code can raise, and the one of the update script.\<close>

datatype error = KeyError | ValueError | NullPointerException

text \<open>
  A Python dict (and a Java map inside the update script) is an association list with
  one entry per key. The list order stands for the iteration order; \<open>d[k] = v\<close> is
  \<open>AList.update k v d\<close> and a lookup is \<open>map_of d k\<close>.
\<close>

type_synonym dict = "(string \<times> pyval) list"

text \<open>\<open>del d[k]\<close>: raises KeyError when the key is absent.\<close>

definition dict_del :: "dict \<Rightarrow> string \<Rightarrow> error + dict" where
  "dict_del d k = (if k \<in> fst ` set d then Inr (AList.delete k d) else Inl KeyError)"

text \<open>
  A dict comprehension \<open>{f(k): v for k, v in d.iteritems()}\<close>: the entries are stored
  one after the other into a fresh dict, so that a later entry wins when two keys are
  renamed to the same name.
\<close>

definition dict_comp :: "(string \<Rightarrow> string) \<Rightarrow> dict \<Rightarrow> dict" where
  "dict_comp f d = fold (\<lambda>(k, v) acc. AList.update (f k) v acc) d []"

text \<open>
  Python truthiness of a cell. A missing cell never reaches the test in the indexer,
  since \<open>dropna\<close> has removed it before.
\<close>

fun truthy :: "pyval \<Rightarrow> bool" where
  "truthy NaN = False"
| "truthy (PBool b) = b"
| "truthy (PInt i) = (i \<noteq> 0)"
| "truthy (PStr s) = (s \<noteq> [])"

text \<open>
  A data frame: its column labels and its rows of cells. \<open>iterrows\<close> pairs each row
  with the labels. The labels of a BigQuery result are pairwise different.
\<close>

record dataframe =
  df_columns :: "string list"
  df_data :: "pyval list list"

type_synonym row = "(string \<times> pyval) list"

definition iterrows :: "dataframe \<Rightarrow> row list" where
  "iterrows df = map (zip (df_columns df)) (df_data df)"

text \<open>\<open>row.dropna().to_dict()\<close>: the cells that are not missing, as a dict.\<close>

definition dropna_to_dict :: "row \<Rightarrow> dict" where
  "dropna_to_dict r = filter (\<lambda>(k, v). v \<noteq> NaN) r"

text \<open>\<open>row[column]\<close>: the cell itself, missing or not; KeyError for an unknown label.\<close>

definition row_get :: "row \<Rightarrow> string \<Rightarrow> error + pyval" where
  "row_get r k = (case map_of r k of None \<Rightarrow> Inl KeyError | Some v \<Rightarrow> Inr v)"

text \<open>
  A generator that runs a row function over the rows of a frame: the items yielded
  before the first exception, and that exception if there is one.
\<close>

fun generate :: "('r \<Rightarrow> error + 'a) \<Rightarrow> 'r list \<Rightarrow> 'a list \<times> error option" where
  "generate f [] = ([], None)"
| "generate f (r # rs) =
     (case f r of
        Inl e \<Rightarrow> ([], Some e)
      | Inr x \<Rightarrow> (case generate f rs of (xs, e) \<Rightarrow> (x # xs, e)))"

section \<open>The document builder\<close>

text \<open>The scoped name of a column: \<open>table_name + '.' + k\<close>.\<close>

definition scoped :: "string \<Rightarrow> string \<Rightarrow> string" where
  "scoped table_name k = table_name @ ''.'' @ k"

text \<open>The body of the loop of \<open>_docs_by_id\<close>, for one row.\<close>

definition doc_of_row :: "string \<Rightarrow> string \<Rightarrow> row \<Rightarrow> error + (pyval \<times> dict)" where
  "doc_of_row table_name participant_id_column r =
     (let row_dict = dropna_to_dict r in
      case dict_del row_dict participant_id_column of
        Inl e \<Rightarrow> Inl e
      | Inr row_dict1 \<Rightarrow>
          (let row_dict2 = dict_comp (scoped table_name) row_dict1 in
           case row_get r participant_id_column of
             Inl e \<Rightarrow> Inl e
           | Inr i \<Rightarrow> Inr (i, row_dict2)))"

definition docs_by_id ::
    "dataframe \<Rightarrow> string \<Rightarrow> string \<Rightarrow> (pyval \<times> dict) list \<times> error option" where
  "docs_by_id df table_name participant_id_column =
     generate (doc_of_row table_name participant_id_column) (iterrows df)"

text \<open>
  A row has an entity ID when its cell in the entity-ID column is there and is not
  missing.
\<close>

definition has_entity_id :: "string \<Rightarrow> row \<Rightarrow> bool" where
  "has_entity_id participant_id_column r =
     (case map_of r participant_id_column of None \<Rightarrow> False | Some i \<Rightarrow> i \<noteq> NaN)"

section \<open>The merge-script generator\<close>

text \<open>\<open>file_type.lower().replace(" ", "_")\<close>, on ASCII letters.\<close>

definition lower_char :: "char \<Rightarrow> char" where
  "lower_char c =
     (let n = (of_char c :: nat) in if 65 \<le> n \<and> n \<le> 90 then char_of (n + 32) else c)"

definition has_name :: "string \<Rightarrow> string" where
  "has_name file_type =
     ''_has_'' @ map (\<lambda>c. if c = CHR '' '' then CHR ''_'' else c) (map lower_char file_type)"

text \<open>
  One round of the loop over \<open>sample_file_columns\<close>. \<open>table_name in col\<close> is
  Python's substring test on strings.
\<close>

definition add_has_flag :: "string \<Rightarrow> string \<times> string \<Rightarrow> dict \<Rightarrow> dict" where
  "add_has_flag table_name fc row_dict =
     (case fc of (file_type, col) \<Rightarrow>
        if sublist table_name col then
          (if (case map_of row_dict col of None \<Rightarrow> False | Some v \<Rightarrow> truthy v)
           then AList.update (has_name file_type) (PBool True) row_dict
           else AList.update (has_name file_type) (PBool False) row_dict)
        else row_dict)"

text \<open>
  A merge operation: the script \<open>UPDATE_SAMPLES_SCRIPT\<close> with the sample ID column
  written into it, and its parameter \<open>sample\<close>.
\<close>

record merge_op =
  op_key :: string
  op_sample :: dict

text \<open>The body of the loop of \<open>_sample_scripts_by_id\<close>, for one row.\<close>

definition sample_script_of_row ::
    "string \<Rightarrow> string \<Rightarrow> string \<Rightarrow> (string \<times> string) list \<Rightarrow> row
      \<Rightarrow> error + (pyval \<times> merge_op)" where
  "sample_script_of_row table_name participant_id_column sample_id_column
       sample_file_columns r =
     (let row_dict = dropna_to_dict r in
      case dict_del row_dict participant_id_column of
        Inl e \<Rightarrow> Inl e
      | Inr row_dict1 \<Rightarrow>
          (let row_dict2 =
                 dict_comp (\<lambda>k. if k \<noteq> sample_id_column then scoped table_name k else k)
                   row_dict1;
               row_dict3 = fold (add_has_flag table_name) sample_file_columns row_dict2
           in case row_get r participant_id_column of
                Inl e \<Rightarrow> Inl e
              | Inr i \<Rightarrow> Inr (i, \<lparr>op_key = sample_id_column, op_sample = row_dict3\<rparr>)))"

definition sample_scripts_by_id ::
    "dataframe \<Rightarrow> string \<Rightarrow> string \<Rightarrow> string \<Rightarrow> (string \<times> string) list
      \<Rightarrow> (pyval \<times> merge_op) list \<times> error option" where
  "sample_scripts_by_id df table_name participant_id_column sample_id_column
       sample_file_columns =
     generate
       (sample_script_of_row table_name participant_id_column sample_id_column
          sample_file_columns)
       (iterrows df)"

section \<open>The update script\<close>

text \<open>
  The source of an entity document: its top-level fields, and the \<open>samples\<close> array
  when the document has one.
\<close>

record source =
  flat :: "string \<rightharpoonup> pyval"
  samples :: "dict list option"











section \<open>Nested mappings of a schema\<close>

text \<open>A field of a BigQuery schema, and a table with its legacy identifier.\<close>

datatype field =
  Field (fname: string) (field_type: string) (mode: string) (ffields: "field list")

record table =
  full_table_id :: string
  schema :: "field list"

text \<open>
  An Elasticsearch mapping: the dict that \<open>_get_nested_mappings\<close> keeps under a name,
  with its optional keys \<open>type\<close> and \<open>properties\<close>.
\<close>

datatype mapping =
  Mapping (mtype: "string option") (mproperties: "(string \<times> mapping) list option")

text \<open>\<open>'%s.%s' % (prefix, field.name) if prefix else field.name\<close>\<close>

definition prefixed_name :: "string option \<Rightarrow> string \<Rightarrow> string" where
  "prefixed_name pfx n =
     (case pfx of
        None \<Rightarrow> n
      | Some p \<Rightarrow> if p \<noteq> [] then p @ ''.'' @ n else n)"

definition repeated_record :: "field \<Rightarrow> bool" where
  "repeated_record f \<longleftrightarrow> mode f = ''REPEATED'' \<and> field_type f = ''RECORD''"

text \<open>
  The body of the loop of \<open>_get_nested_mappings\<close>, after the recursive call: what it
  stores into the dict \<open>nested\<close> for the field of name \<open>name\<close>, \<open>inner_nested\<close> being
  the mappings of the field's children.
\<close>

definition nested_store ::
    "string \<Rightarrow> field \<Rightarrow> (string \<times> mapping) list option \<Rightarrow> (string \<times> mapping) list
      \<Rightarrow> (string \<times> mapping) list" where
  "nested_store name f inner_nested nested =
     (let nested1 =
            (if repeated_record f
             then AList.update name (Mapping (Some ''nested'') None) nested
             else nested)
      in case inner_nested of
           None \<Rightarrow> nested1
         | Some inner \<Rightarrow>
             (case map_of nested1 name of
                None \<Rightarrow> AList.update name (Mapping None (Some inner)) nested1
              | Some m \<Rightarrow> AList.update name (Mapping (mtype m) (Some inner)) nested1))"

text \<open>
  \<open>_get_nested_mappings\<close> and its loop over the fields, the dict \<open>nested\<close> being the
  accumulator. The recursive call passes no prefix.
\<close>

function get_nested_mappings :: "field list \<Rightarrow> string option \<Rightarrow> (string \<times> mapping) list option"
  and nested_loop ::
    "field list \<Rightarrow> string option \<Rightarrow> (string \<times> mapping) list \<Rightarrow> (string \<times> mapping) list"
  where
  "get_nested_mappings sch pfx =
     (let nested = nested_loop sch pfx [] in if nested \<noteq> [] then Some nested else None)"
| "nested_loop [] pfx nested = nested"
| "nested_loop (f # fs) pfx nested =
     (let name = prefixed_name pfx (fname f);
          inner_nested = get_nested_mappings (ffields f) None
      in nested_loop fs pfx (nested_store name f inner_nested nested))"
  by pat_completeness auto
termination
  by (relation "measure (\<lambda>x. case x of
                            Inl (sch, pfx) \<Rightarrow> 2 * size_list size sch + 1
                          | Inr (sch, pfx, nested) \<Rightarrow> 2 * size_list size sch)")
    (auto, case_tac f, auto)

text \<open>
  \<open>str.rsplit(sep, 1)\<close> unpacked into two names: the parts around the last separator;
  the unpacking raises ValueError when there is no separator.
\<close>

definition rsplit_once :: "char \<Rightarrow> string \<Rightarrow> (string \<times> string) option" where
  "rsplit_once c s =
     (if c \<in> set s
      then (let last_part = takeWhile (\<lambda>x. x \<noteq> c) (rev s)
            in Some (rev (drop (Suc (length last_part)) (rev s)), rev last_part))
      else None)"

definition table_name_from_table :: "table \<Rightarrow> error + string" where
  "table_name_from_table t =
     (case rsplit_once CHR '':'' (full_table_id t) of
        None \<Rightarrow> Inl ValueError
      | Some (project_id, dataset_table_id) \<Rightarrow> Inr (project_id @ ''.'' @ dataset_table_id))"

section \<open>Indexing a table\<close>

text \<open>
  The calls the indexer makes on the document store, in the order it makes them. The
  bulk calls carry the items their generator yields.
\<close>

datatype es_call =
  PutMapping string mapping
| BulkIndexDocs string "(pyval \<times> dict) list"
| BulkIndexScripts string "(pyval \<times> merge_op) list"

fun is_bulk :: "es_call \<Rightarrow> bool" where
  "is_bulk (PutMapping index_name body) = False"
| "is_bulk (BulkIndexDocs index_name docs) = True"
| "is_bulk (BulkIndexScripts index_name scripts) = True"

definition create_nested_mappings ::
    "es_call list \<Rightarrow> string \<Rightarrow> table \<Rightarrow> string option \<Rightarrow> error + es_call list" where
  "create_nested_mappings es index_name t sample_id_column =
     (case table_name_from_table t of
        Inl e \<Rightarrow> Inl e
      | Inr table_name \<Rightarrow>
          (let nested = get_nested_mappings (schema t) (Some table_name) in
           if (case sample_id_column of
                 None \<Rightarrow> False
               | Some c \<Rightarrow> c \<in> set (map fname (schema t)))
           then Inr (es @ [PutMapping index_name
                  (Mapping None (Some [(''samples'', Mapping (Some ''nested'') nested)]))])
           else (case nested of
                   Some n \<Rightarrow> Inr (es @ [PutMapping index_name (Mapping None (Some n))])
                 | None \<Rightarrow> Inr es)))"

text \<open>
  \<open>index_table\<close>, on the frame that the query of the table returned: the calls made on
  the store when it returns or raises, and the exception if it raises.
\<close>

definition index_table ::
    "es_call list \<Rightarrow> string \<Rightarrow> table \<Rightarrow> dataframe \<Rightarrow> string \<Rightarrow> string option
      \<Rightarrow> (string \<times> string) list \<Rightarrow> es_call list \<times> error option" where
  "index_table es index_name t df participant_id_column sample_id_column
       sample_file_columns =
     (case create_nested_mappings es index_name t sample_id_column of
        Inl e \<Rightarrow> (es, Some e)
      | Inr es1 \<Rightarrow>
          (case table_name_from_table t of
             Inl e \<Rightarrow> (es1, Some e)
           | Inr table_name \<Rightarrow>
               if participant_id_column \<notin> set (df_columns df) then (es1, Some ValueError)
               else
                 (case (case sample_id_column of
                          None \<Rightarrow> None
                        | Some c \<Rightarrow> if c \<in> set (df_columns df) then Some c else None) of
                    Some c \<Rightarrow>
                      (case sample_scripts_by_id df table_name participant_id_column c
                              sample_file_columns of
                         (scripts, e) \<Rightarrow> (es1 @ [BulkIndexScripts index_name scripts], e))
                  | None \<Rightarrow>
                      (case docs_by_id df table_name participant_id_column of
                         (docs, e) \<Rightarrow> (es1 @ [BulkIndexDocs index_name docs], e)))))"

section \<open>The sample export\<close>

text \<open>\<open>str.split(sep)\<close>: one more part than there are separators.\<close>

fun split_on :: "char \<Rightarrow> string \<Rightarrow> string list" where
  "split_on c [] = [[]]"
| "split_on c (x # xs) =
     (if x = c then [] # split_on c xs
      else (case split_on c xs of
              [] \<Rightarrow> [[x]]
            | w # ws \<Rightarrow> (x # w) # ws))"

text \<open>A hit of the scan: the document's id and its source.\<close>

record hit =
  hit_id :: pyval
  hit_source :: source

record entity =
  entityType :: string
  entity_name :: pyval
  attributes :: dict

text \<open>\<open>doc.get('samples', [])\<close>\<close>

definition samples_of :: "hit \<Rightarrow> dict list" where
  "samples_of h = (case samples (hit_source h) of None \<Rightarrow> [] | Some arr \<Rightarrow> arr)"


text \<open>The loop over the fields of one sample, \<open>export_sample\<close> being the accumulator.\<close>

definition export_field :: "string \<times> pyval \<Rightarrow> dict \<Rightarrow> dict" where
  "export_field kv export_sample =
     (case kv of (es_field_name, v) \<Rightarrow>
        (let splits = split_on CHR ''.'' es_field_name in
         if length splits \<noteq> 4 then export_sample
         else AList.update (splits ! 3) v export_sample))"

definition export_attributes :: "pyval \<Rightarrow> dict \<Rightarrow> dict" where
  "export_attributes participant_id sample =
     fold export_field sample [(''participant'', participant_id)]"

text \<open>The loop over the samples of one hit, and the loop over the hits.\<close>

fun export_samples :: "pyval \<Rightarrow> dict list \<Rightarrow> error + entity list" where
  "export_samples participant_id [] = Inr []"
| "export_samples participant_id (sample # rest) =
     (case map_of sample ''sample_id'' of
        None \<Rightarrow> Inl KeyError
      | Some sample_id \<Rightarrow>
          (case export_samples participant_id rest of
             Inl e \<Rightarrow> Inl e
           | Inr es \<Rightarrow>
               Inr (\<lparr>entityType = ''sample'', entity_name = sample_id,
                      attributes = export_attributes participant_id sample\<rparr> # es)))"

fun export_entities :: "hit list \<Rightarrow> error + entity list" where
  "export_entities [] = Inr []"
| "export_entities (h # hs) =
     (case export_samples (hit_id h) (samples_of h) of
        Inl e \<Rightarrow> Inl e
      | Inr es \<Rightarrow>
          (case export_entities hs of
             Inl e \<Rightarrow> Inl e
           | Inr es' \<Rightarrow> Inr (es @ es')))"

section \<open>Partial updates of entity documents\<close>

text \<open>
  Modelled from the spec: the bulk indexer's partial update of an entity document (the
  helper module that submits the documents is not among the source files). A document
  is merged at top level, fields it does not mention are left untouched, and the entity
  is created by the first document that mentions its ID.
\<close>

definition partial_update :: "source \<Rightarrow> dict \<Rightarrow> source" where
  "partial_update src doc = src\<lparr>flat := flat src ++ map_of doc\<rparr>"

type_synonym store = "pyval \<rightharpoonup> source"

definition index_doc :: "store \<Rightarrow> pyval \<times> dict \<Rightarrow> store" where
  "index_doc st idoc =
     (case idoc of (i, doc) \<Rightarrow>
        st(i \<mapsto> partial_update
                 (case st i of None \<Rightarrow> \<lparr>flat = Map.empty, samples = None\<rparr> | Some src \<Rightarrow> src)
                 doc))"

definition bulk_index_docs :: "store \<Rightarrow> (pyval \<times> dict) list \<Rightarrow> store" where
  "bulk_index_docs st docs = foldl index_doc st docs"

text \<open>
  The top-level fields of an entity in a store (none when the entity is not there), and
  the fields that a sequence of documents contributes to an entity, a later document
  overwriting an earlier one.
\<close>

definition flat_at :: "store \<Rightarrow> pyval \<Rightarrow> (string \<rightharpoonup> pyval)" where
  "flat_at st i = (case st i of None \<Rightarrow> Map.empty | Some src \<Rightarrow> flat src)"

fun fields_for :: "pyval \<Rightarrow> (pyval \<times> dict) list \<Rightarrow> (string \<rightharpoonup> pyval)" where
  "fields_for i [] = Map.empty"
| "fields_for i ((j, doc) # docs) =
     (if j = i then map_of doc else Map.empty) ++ fields_for i docs"

section \<open>Facts about dictionaries and rows\<close>

lemma fold_update_keys:
  "fst ` set (fold (\<lambda>(k, v) acc. AList.update (f k) v acc) d acc) = f ` fst ` set d \<union> fst ` set acc"
proof (induction d arbitrary: acc)
  case Nil
  show ?case by simp
next
  case (Cons p d)
  have "fst ` set (fold (\<lambda>(k, v) acc. AList.update (f k) v acc) (p # d) acc) =
        f ` fst ` set d \<union> fst ` set (AList.update (f (fst p)) (snd p) acc)"
    by (simp add: Cons.IH split_beta)
  also have "\<dots> = f ` fst ` set (p # d) \<union> fst ` set acc"
    unfolding AList.dom_update by auto
  finally show ?case .
qed

lemma fold_update_lookup:
  "distinct (map fst d) \<Longrightarrow> (\<forall>k' \<in> fst ` set d. f k' = f k \<longrightarrow> k' = k) \<Longrightarrow>
   map_of (fold (\<lambda>(k, v) acc. AList.update (f k) v acc) d acc) (f k) =
     (case map_of d k of Some v \<Rightarrow> Some v | None \<Rightarrow> map_of acc (f k))"
proof (induction d arbitrary: acc)
  case Nil
  then show ?case by simp
next
  case (Cons p d)
  obtain k0 v0 where p: "p = (k0, v0)" by (cases p)
  from Cons.prems have d: "distinct (map fst d)" and k0: "k0 \<notin> fst ` set d"
    and inj: "\<forall>k' \<in> fst ` set d. f k' = f k \<longrightarrow> k' = k" and inj0: "f k0 = f k \<longrightarrow> k0 = k"
    by (auto simp: p)
  have ih: "map_of (fold (\<lambda>(k, v) acc. AList.update (f k) v acc) d (AList.update (f k0) v0 acc)) (f k) =
     (case map_of d k of Some v \<Rightarrow> Some v | None \<Rightarrow> map_of (AList.update (f k0) v0 acc) (f k))"
    by (rule Cons.IH[OF d inj])
  show ?case
  proof (cases "k0 = k")
    case True
    with k0 have "map_of d k = None" by (simp add: map_of_eq_None_iff)
    with True ih show ?thesis by (simp add: p AList.update_conv')
  next
    case False
    with inj0 have "f k0 \<noteq> f k" by auto
    with False ih show ?thesis by (simp add: p AList.update_conv' split: option.splits)
  qed
qed


lemma scoped_inj: "scoped t k = scoped t k' \<longleftrightarrow> k = k'"
  by (simp add: scoped_def)

lemma dropna_lookup:
  "distinct (map fst r) \<Longrightarrow> map_of (dropna_to_dict r) k = (case map_of r k of Some NaN \<Rightarrow> None | c \<Rightarrow> c)"
  unfolding dropna_to_dict_def
  by (induction r) (auto split: option.splits pyval.splits simp: map_of_eq_None_iff rev_image_eqI)

lemma dropna_distinct: "distinct (map fst r) \<Longrightarrow> distinct (map fst (dropna_to_dict r))"
  unfolding dropna_to_dict_def by (simp add: distinct_map_filter)

lemma dropna_keys: "distinct (map fst r) \<Longrightarrow> fst ` set (dropna_to_dict r) = {k \<in> fst ` set r. map_of r k \<noteq> Some NaN}"
  unfolding dropna_to_dict_def
  by (induction r) (auto simp: rev_image_eqI map_of_eq_None_iff  dest: map_of_SomeD)


lemma dict_del_ok: "k \<in> fst ` set d \<Longrightarrow> dict_del d k = Inr (AList.delete k d)"
  by (simp add: dict_del_def)

lemma iterrows_distinct:
  assumes "distinct (df_columns df)" and "r \<in> set (iterrows df)"
  shows "distinct (map fst r)"
proof -
  from assms(2) obtain cells where "r = zip (df_columns df) cells"
    by (auto simp: iterrows_def)
  then have "map fst r = take (min (length (df_columns df)) (length cells)) (df_columns df)"
    by (simp add: map_fst_zip_take)
  with assms(1) show ?thesis by simp
qed

section \<open>The claims\<close>

subsection \<open>C2: the documents of a table\<close>

lemma doc_of_row_ok:
  assumes "distinct (map fst r)" and "map_of r pid = Some i" and "i \<noteq> NaN"
  shows "\<exists>doc. doc_of_row t pid r = Inr (i, doc) \<and>
           (\<forall>k. map_of doc (scoped t k) =
              (if k = pid then None else case map_of r k of Some NaN \<Rightarrow> None | c \<Rightarrow> c)) \<and>
           fst ` set doc = scoped t ` {k \<in> fst ` set r. k \<noteq> pid \<and> map_of r k \<noteq> Some NaN}"
proof -
  let ?d = "dropna_to_dict r"
  let ?d1 = "AList.delete pid ?d"
  let ?doc = "dict_comp (scoped t) ?d1"
  have dd: "distinct (map fst ?d)" using assms(1) by (rule dropna_distinct)
  have "map_of ?d pid = Some i"
    using assms(2,3) by (cases i) (simp_all add: dropna_lookup[OF assms(1)])
  then have "pid \<in> dom (map_of ?d)" by (rule domI)
  then have "pid \<in> fst ` set ?d" by (simp add: dom_map_of_conv_image_fst)
  then have del: "dict_del ?d pid = Inr ?d1" by (rule dict_del_ok)
  have run: "doc_of_row t pid r = Inr (i, ?doc)"
    by (simp add: doc_of_row_def del row_get_def assms(2))
  have d1: "distinct (map fst ?d1)" using dd by (simp add: AList.distinct_delete)
  have look1: "map_of ?d1 k = (if k = pid then None else case map_of r k of Some NaN \<Rightarrow> None | c \<Rightarrow> c)" for k
    by (simp add: AList.delete_conv' dropna_lookup[OF assms(1)])
  have look: "map_of ?doc (scoped t k) =
      (if k = pid then None else case map_of r k of Some NaN \<Rightarrow> None | c \<Rightarrow> c)" for k
  proof -
    have "map_of ?doc (scoped t k) = (case map_of ?d1 k of Some v \<Rightarrow> Some v | None \<Rightarrow> map_of [] (scoped t k))"
      unfolding dict_comp_def by (rule fold_update_lookup[OF d1]) (simp add: scoped_inj)
    then show ?thesis by (simp add: look1 split: option.splits)
  qed
  have keys1: "fst ` set ?d1 = {k \<in> fst ` set r. k \<noteq> pid \<and> map_of r k \<noteq> Some NaN}"
    using dropna_keys[OF assms(1)] by (auto simp: AList.delete_keys simp flip: set_map)
  have keys: "fst ` set ?doc = scoped t ` {k \<in> fst ` set r. k \<noteq> pid \<and> map_of r k \<noteq> Some NaN}"
    unfolding dict_comp_def fold_update_keys keys1 by simp
  from run look keys show ?thesis by blast
qed

lemma doc_of_row_null_id:
  assumes "distinct (map fst r)" and "\<not> has_entity_id pid r"
  shows "doc_of_row t pid r = Inl KeyError"
proof -
  have "map_of (dropna_to_dict r) pid = None"
    using assms(2) by (auto simp: has_entity_id_def dropna_lookup[OF assms(1)] split: option.splits)
  then have "pid \<notin> fst ` set (dropna_to_dict r)"
    by (simp add: map_of_eq_None_iff)
  then show ?thesis by (simp add: doc_of_row_def dict_del_def)
qed

lemma generate_takeWhile:
  assumes "\<forall>r \<in> set rows. \<not> ok r \<longrightarrow> f r = Inl e"
    and "\<forall>r \<in> set rows. ok r \<longrightarrow> (\<exists>x. f r = Inr x \<and> P r x)"
  shows "length (fst (generate f rows)) = length (takeWhile ok rows) \<and>
         snd (generate f rows) = (if \<forall>r \<in> set rows. ok r then None else Some e) \<and>
         (\<forall>n < length (takeWhile ok rows). P (rows ! n) (fst (generate f rows) ! n))"
  using assms
proof (induction rows)
  case Nil
  show ?case by simp
next
  case (Cons r rows)
  show ?case
  proof (cases "ok r")
    case False
    with Cons.prems(1) have "f r = Inl e" by simp
    with False show ?thesis by simp
  next
    case True
    with Cons.prems(2) obtain x where x: "f r = Inr x" "P r x" by auto
    from Cons have ih: "length (fst (generate f rows)) = length (takeWhile ok rows) \<and>
         snd (generate f rows) = (if \<forall>r \<in> set rows. ok r then None else Some e) \<and>
         (\<forall>n < length (takeWhile ok rows). P (rows ! n) (fst (generate f rows) ! n))"
      by simp
    obtain xs e' where g: "generate f rows = (xs, e')" by (cases "generate f rows")
    have nth: "P ((r # rows) ! n) ((x # xs) ! n)" if "n < Suc (length (takeWhile ok rows))" for n
      using that ih g x(2) by (cases n) simp_all
    from ih g x True nth show ?thesis by simp
  qed
qed

text \<open>
  C2 (as amended). \<open>_docs_by_id\<close> yields one pair for each row that comes before the
  first row whose entity-ID cell is missing, in the order of the rows, and nothing
  else. The pair of such a row is the row's entity-ID cell and a document in which a
  column that is missing in the row has no key, the entity-ID column has no key, every
  other column \<open>k\<close> is found under \<open>table_name.k\<close> with the row's value, and there is no
  further key. When no row lacks the entity ID, the generator ends normally; otherwise
  it raises KeyError at the first row that lacks it, and the rows after that row yield
  nothing.
\<close>

theorem docs_by_id_rows:
  assumes "distinct (df_columns df)"
  shows "length (fst (docs_by_id df t pid)) =
           length (takeWhile (has_entity_id pid) (iterrows df)) \<and>
         snd (docs_by_id df t pid) =
           (if \<forall>r \<in> set (iterrows df). has_entity_id pid r then None else Some KeyError) \<and>
         (\<forall>n < length (takeWhile (has_entity_id pid) (iterrows df)).
            \<exists>i doc. fst (docs_by_id df t pid) ! n = (i, doc) \<and>
              map_of (iterrows df ! n) pid = Some i \<and> i \<noteq> NaN \<and>
              (\<forall>k. map_of doc (scoped t k) =
                 (if k = pid then None
                  else case map_of (iterrows df ! n) k of Some NaN \<Rightarrow> None | c \<Rightarrow> c)) \<and>
              fst ` set doc =
                scoped t ` {k \<in> fst ` set (iterrows df ! n).
                             k \<noteq> pid \<and> map_of (iterrows df ! n) k \<noteq> Some NaN})"
proof -
  let ?P = "\<lambda>r x. \<exists>i doc. x = (i, doc) \<and> map_of r pid = Some i \<and> i \<noteq> NaN \<and>
              (\<forall>k. map_of doc (scoped t k) =
                 (if k = pid then None else case map_of r k of Some NaN \<Rightarrow> None | c \<Rightarrow> c)) \<and>
              fst ` set doc = scoped t ` {k \<in> fst ` set r. k \<noteq> pid \<and> map_of r k \<noteq> Some NaN}"
  have bad: "\<forall>r \<in> set (iterrows df). \<not> has_entity_id pid r \<longrightarrow>
      doc_of_row t pid r = Inl KeyError"
    using iterrows_distinct[OF assms] doc_of_row_null_id by blast
  have good: "\<forall>r \<in> set (iterrows df). has_entity_id pid r \<longrightarrow>
      (\<exists>x. doc_of_row t pid r = Inr x \<and> ?P r x)"
  proof (intro ballI impI)
    fix r assume r: "r \<in> set (iterrows df)" and "has_entity_id pid r"
    then obtain i where i: "map_of r pid = Some i" "i \<noteq> NaN"
      by (auto simp: has_entity_id_def split: option.splits)
    from doc_of_row_ok[OF iterrows_distinct[OF assms r] i, of t] i
    show "\<exists>x. doc_of_row t pid r = Inr x \<and> ?P r x" by blast
  qed
  from generate_takeWhile[of "iterrows df" "has_entity_id pid" "doc_of_row t pid" KeyError ?P,
      OF bad good]
  show ?thesis unfolding docs_by_id_def by simp
qed

theorem docs_by_id_rows_witness:
  "distinct (df_columns \<lparr>df_columns = [''pid'', ''value'', ''note''],
                          df_data = [[PStr ''P1'', PInt 70, NaN],
                                     [NaN, PInt 80, PStr ''x''],
                                     [PStr ''P3'', PInt 90, PStr ''y'']]\<rparr>) \<and>
   length (fst (docs_by_id \<lparr>df_columns = [''pid'', ''value'', ''note''],
                             df_data = [[PStr ''P1'', PInt 70, NaN],
                                        [NaN, PInt 80, PStr ''x''],
                                        [PStr ''P3'', PInt 90, PStr ''y'']]\<rparr>
                  ''proj.ds.weight'' ''pid'')) = 1 \<and>
   snd (docs_by_id \<lparr>df_columns = [''pid'', ''value'', ''note''],
                     df_data = [[PStr ''P1'', PInt 70, NaN],
                                [NaN, PInt 80, PStr ''x''],
                                [PStr ''P3'', PInt 90, PStr ''y'']]\<rparr>
          ''proj.ds.weight'' ''pid'') = Some KeyError \<and>
   (\<exists>doc. fst (docs_by_id \<lparr>df_columns = [''pid'', ''value'', ''note''],
                            df_data = [[PStr ''P1'', PInt 70, NaN],
                                       [NaN, PInt 80, PStr ''x''],
                                       [PStr ''P3'', PInt 90, PStr ''y'']]\<rparr>
                 ''proj.ds.weight'' ''pid'') ! 0 = (PStr ''P1'', doc) \<and>
          map_of doc (scoped ''proj.ds.weight'' ''value'') = Some (PInt 70) \<and>
          map_of doc (scoped ''proj.ds.weight'' ''note'') = None \<and>
          map_of doc (scoped ''proj.ds.weight'' ''pid'') = None)"
proof -
  define df where "df = \<lparr>df_columns = [''pid'', ''value'', ''note''],
                          df_data = [[PStr ''P1'', PInt 70, NaN],
                                     [NaN, PInt 80, PStr ''x''],
                                     [PStr ''P3'', PInt 90, PStr ''y'']]\<rparr>"
  define r where "r = [(''pid'', PStr ''P1''), (''value'', PInt 70), (''note'', NaN)]"
  have h: "distinct (df_columns df)" by (simp add: df_def)
  have rows: "iterrows df ! 0 = r" by (simp add: df_def r_def iterrows_def)
  have tw: "takeWhile (has_entity_id ''pid'') (iterrows df) = [r]"
    by (simp add: df_def r_def iterrows_def has_entity_id_def)
  have bad: "\<not> (\<forall>r \<in> set (iterrows df). has_entity_id ''pid'' r)"
    by (simp add: df_def iterrows_def has_entity_id_def)
  note inst = docs_by_id_rows[OF h, of "''proj.ds.weight''" "''pid''"]
  from inst have len: "length (fst (docs_by_id df ''proj.ds.weight'' ''pid'')) = 1"
    by (simp add: tw)
  from inst bad have err: "snd (docs_by_id df ''proj.ds.weight'' ''pid'') = Some KeyError"
    by simp
  from inst have "\<forall>n < length [r].
      \<exists>i doc. fst (docs_by_id df ''proj.ds.weight'' ''pid'') ! n = (i, doc) \<and>
        map_of (iterrows df ! n) ''pid'' = Some i \<and> i \<noteq> NaN \<and>
        (\<forall>k. map_of doc (scoped ''proj.ds.weight'' k) =
           (if k = ''pid'' then None
            else case map_of (iterrows df ! n) k of Some NaN \<Rightarrow> None | c \<Rightarrow> c)) \<and>
        fst ` set doc =
          scoped ''proj.ds.weight'' ` {k \<in> fst ` set (iterrows df ! n).
                       k \<noteq> ''pid'' \<and> map_of (iterrows df ! n) k \<noteq> Some NaN}"
    unfolding tw by (elim conjE)
  then have "\<exists>i doc. fst (docs_by_id df ''proj.ds.weight'' ''pid'') ! 0 = (i, doc) \<and>
        map_of r ''pid'' = Some i \<and> i \<noteq> NaN \<and>
        (\<forall>k. map_of doc (scoped ''proj.ds.weight'' k) =
           (if k = ''pid'' then None else case map_of r k of Some NaN \<Rightarrow> None | c \<Rightarrow> c)) \<and>
        fst ` set doc =
          scoped ''proj.ds.weight'' ` {k \<in> fst ` set r. k \<noteq> ''pid'' \<and> map_of r k \<noteq> Some NaN}"
    unfolding rows[symmetric] by simp
  then obtain i doc where first: "fst (docs_by_id df ''proj.ds.weight'' ''pid'') ! 0 = (i, doc)"
    and i: "map_of r ''pid'' = Some i"
    and look: "\<forall>k. map_of doc (scoped ''proj.ds.weight'' k) =
           (if k = ''pid'' then None else case map_of r k of Some NaN \<Rightarrow> None | c \<Rightarrow> c)"
    by blast
  from i have "i = PStr ''P1''" by (simp add: r_def)
  moreover have "map_of doc (scoped ''proj.ds.weight'' ''value'') = Some (PInt 70)"
    using look[rule_format, of "''value''"] by (simp add: r_def)
  moreover have "map_of doc (scoped ''proj.ds.weight'' ''note'') = None"
    using look[rule_format, of "''note''"] by (simp add: r_def)
  moreover have "map_of doc (scoped ''proj.ds.weight'' ''pid'') = None"
    using look[rule_format, of "''pid''"] by simp
  ultimately have "\<exists>doc. fst (docs_by_id df ''proj.ds.weight'' ''pid'') ! 0 = (PStr ''P1'', doc) \<and>
          map_of doc (scoped ''proj.ds.weight'' ''value'') = Some (PInt 70) \<and>
          map_of doc (scoped ''proj.ds.weight'' ''note'') = None \<and>
          map_of doc (scoped ''proj.ds.weight'' ''pid'') = None"
    using first by blast
  with h len err show ?thesis unfolding df_def by (intro conjI)
qed

text \<open>
  A row whose entity-ID cell is missing yields no pair: \<open>dropna\<close> has removed the
  column, and \<open>del row_dict[participant_id_column]\<close> raises KeyError.
\<close>

theorem docs_by_id_null_id_counterexample:
  "docs_by_id \<lparr>df_columns = [''pid'', ''value''], df_data = [[NaN, PInt 70]]\<rparr>
     ''proj.ds.weight'' ''pid'' = ([], Some KeyError)"
  by (simp add: docs_by_id_def iterrows_def doc_of_row_def dropna_to_dict_def dict_del_def)

subsection \<open>C6: a table without the entity-ID column\<close>

lemma table_name_from_table_error: "table_name_from_table t = Inl e \<Longrightarrow> e = ValueError"
  by (auto simp: table_name_from_table_def split: option.splits)

lemma create_nested_mappings_error:
  "create_nested_mappings es index_name t sample_id_column = Inl e \<Longrightarrow> e = ValueError"
  by (auto simp: create_nested_mappings_def Let_def
           split: sum.splits option.splits if_splits dest: table_name_from_table_error)

lemma create_nested_mappings_bulk:
  "create_nested_mappings es index_name t sample_id_column = Inr es1 \<Longrightarrow>
   filter is_bulk es1 = filter is_bulk es"
  by (auto simp: create_nested_mappings_def Let_def split: sum.splits option.splits if_splits)

text \<open>
  C6. When the frame that was fetched for a table has no entity-ID column,
  \<open>index_table\<close> raises ValueError, and the calls it has made on the store by then
  hold no bulk submission, of documents or of merge operations, that was not there
  before.
\<close>

theorem index_table_missing_id_column:
  assumes "participant_id_column \<notin> set (df_columns df)"
  shows "snd (index_table es index_name t df participant_id_column sample_id_column
                sample_file_columns) = Some ValueError \<and>
         filter is_bulk (fst (index_table es index_name t df participant_id_column
                sample_id_column sample_file_columns)) = filter is_bulk es"
proof (cases "create_nested_mappings es index_name t sample_id_column")
  case (Inl e)
  then have "e = ValueError" by (rule create_nested_mappings_error)
  with Inl show ?thesis by (simp add: index_table_def)
next
  case (Inr es1)
  then have bulk: "filter is_bulk es1 = filter is_bulk es" by (rule create_nested_mappings_bulk)
  show ?thesis
  proof (cases "table_name_from_table t")
    case (Inl e)
    then have "e = ValueError" by (rule table_name_from_table_error)
    with Inl Inr bulk show ?thesis by (simp add: index_table_def)
  next
    case (Inr table_name)
    with \<open>create_nested_mappings es index_name t sample_id_column = Inr es1\<close> bulk assms
    show ?thesis by (simp add: index_table_def)
  qed
qed

theorem index_table_missing_id_column_witness:
  "''pid'' \<notin> set (df_columns \<lparr>df_columns = [''subject'', ''value''], df_data = [[PStr ''P1'', PInt 70]]\<rparr>) \<and>
   index_table [] ''idx'' \<lparr>full_table_id = ''proj:ds.weight'', schema = [Field ''subject'' ''STRING'' ''NULLABLE'' [], Field ''value'' ''INTEGER'' ''NULLABLE'' []]\<rparr>
     \<lparr>df_columns = [''subject'', ''value''], df_data = [[PStr ''P1'', PInt 70]]\<rparr>
     ''pid'' None [] = ([], Some ValueError)"
proof -
  have h: "''pid'' \<notin> set (df_columns \<lparr>df_columns = [''subject'', ''value''], df_data = [[PStr ''P1'', PInt 70]]\<rparr>)"
    by simp
  have "index_table [] ''idx'' \<lparr>full_table_id = ''proj:ds.weight'', schema = [Field ''subject'' ''STRING'' ''NULLABLE'' [], Field ''value'' ''INTEGER'' ''NULLABLE'' []]\<rparr>
     \<lparr>df_columns = [''subject'', ''value''], df_data = [[PStr ''P1'', PInt 70]]\<rparr>
     ''pid'' None [] = ([], Some ValueError)"
    by (simp add: index_table_def create_nested_mappings_def table_name_from_table_def
          rsplit_once_def prefixed_name_def repeated_record_def nested_store_def)
  with h index_table_missing_id_column[OF h, of "[]" "''idx''"] show ?thesis by simp
qed

subsection \<open>C8 and C9: the sample export\<close>





lemma export_samples_error:
  "s \<in> set arr \<Longrightarrow> map_of s ''sample_id'' = None \<Longrightarrow>
   export_samples participant_id arr = Inl KeyError"
proof (induction arr)
  case Nil
  then show ?case by simp
next
  case (Cons a arr)
  have only: "export_samples participant_id xs = Inl e \<Longrightarrow> e = KeyError" for xs e
    by (induction xs arbitrary: e) (auto split: option.splits sum.splits)
  show ?case
  proof (cases "map_of a ''sample_id''")
    case None
    then show ?thesis by simp
  next
    case (Some sample_id)
    with Cons have "s \<in> set arr" by auto
    with Cons have "export_samples participant_id arr = Inl KeyError" by simp
    with Some show ?thesis by simp
  qed
qed


lemma export_entities_only_KeyError: "export_entities hits = Inl e \<Longrightarrow> e = KeyError"
proof (induction hits arbitrary: e)
  case Nil
  then show ?case by simp
next
  case (Cons h hits)
  have only: "export_samples participant_id xs = Inl e' \<Longrightarrow> e' = KeyError"
    for xs e' participant_id
    by (induction xs arbitrary: e') (auto split: option.splits sum.splits)
  from Cons show ?case by (auto split: sum.splits dest: only)
qed



text \<open>
  C9. The export reads the identity of a sample from the field named \<open>sample_id\<close>,
  whatever the configured sample ID column is: when a scanned document has a sample
  without that key, the export raises KeyError and produces no record.
\<close>

theorem export_missing_sample_id:
  assumes "h \<in> set hits" and "s \<in> set (samples_of h)" and "map_of s ''sample_id'' = None"
  shows "export_entities hits = Inl KeyError"
  using assms(1)
proof (induction hits)
  case Nil
  then show ?case by simp
next
  case (Cons a hits)
  show ?case
  proof (cases "export_samples (hit_id a) (samples_of a)")
    case (Inl e)
    then have "export_entities (a # hits) = Inl e" by simp
    with export_entities_only_KeyError[OF this] show ?thesis by simp
  next
    case (Inr es)
    have "h \<noteq> a"
    proof
      assume "h = a"
      with export_samples_error[OF assms(2,3), of "hit_id h"] Inr show False by simp
    qed
    with Cons have "export_entities hits = Inl KeyError" by simp
    with Inr show ?thesis by simp
  qed
qed

theorem export_missing_sample_id_witness:
  "\<lparr>hit_id = PStr ''P1'',
      hit_source = \<lparr>flat = Map.empty, samples = Some [[(''sid'', PStr ''S1'')]]\<rparr>\<rparr>
     \<in> set [\<lparr>hit_id = PStr ''P1'',
      hit_source = \<lparr>flat = Map.empty, samples = Some [[(''sid'', PStr ''S1'')]]\<rparr>\<rparr>] \<and>
   [(''sid'', PStr ''S1'')] \<in> set (samples_of \<lparr>hit_id = PStr ''P1'',
      hit_source = \<lparr>flat = Map.empty, samples = Some [[(''sid'', PStr ''S1'')]]\<rparr>\<rparr>) \<and>
   map_of [(''sid'', PStr ''S1'')] ''sample_id'' = None \<and>
   export_entities [\<lparr>hit_id = PStr ''P1'',
      hit_source = \<lparr>flat = Map.empty, samples = Some [[(''sid'', PStr ''S1'')]]\<rparr>\<rparr>] =
     Inl KeyError"
proof -
  define h0 where "h0 = \<lparr>hit_id = PStr ''P1'',
      hit_source = \<lparr>flat = Map.empty, samples = Some [[(''sid'', PStr ''S1'')]]\<rparr>\<rparr>"
  have h1: "h0 \<in> set [h0]" by simp
  have h2: "[(''sid'', PStr ''S1'')] \<in> set (samples_of h0)" by (simp add: samples_of_def h0_def)
  have h3: "map_of [(''sid'', PStr ''S1'')] ''sample_id'' = None" by simp
  have "export_entities [h0] = Inl KeyError" by (rule export_missing_sample_id[OF h1 h2 h3])
  with h1 h2 h3 show ?thesis unfolding h0_def by (intro conjI)
qed

subsection \<open>C10: where the update script puts a merged sample\<close>






subsection \<open>C5: the derived file flags\<close>

text \<open>
  C5. The flag of a file column is written whenever the table name occurs somewhere
  inside the configured column, which is more than the column belonging to the table.
  Here the column \<open>vcf\<close> belongs to the table \<open>proj.ds.samples_extra\<close>; it is not a
  column of \<open>proj.ds.samples\<close>, and yet the operation built from a row of
  \<open>proj.ds.samples\<close> carries \<open>_has_vcf\<close>, set to false.
\<close>

theorem has_flag_written_for_other_table:
  "sample_script_of_row ''proj.ds.samples'' ''pid'' ''sid''
     [(''VCF'', scoped ''proj.ds.samples_extra'' ''vcf'')]
     [(''pid'', PStr ''P1''), (''sid'', PStr ''S1'')] =
   Inr (PStr ''P1'',
        \<lparr>op_key = ''sid'',
           op_sample = [(''sid'', PStr ''S1''), (''_has_vcf'', PBool False)]\<rparr>) \<and>
   \<not> (\<exists>c. CHR ''.'' \<notin> set c \<and>
          scoped ''proj.ds.samples_extra'' ''vcf'' = scoped ''proj.ds.samples'' c)"
proof -
  have "sublist ''proj.ds.samples'' ''proj.ds.samples_extra.vcf''"
    by (simp add: sublist_code)
  moreover have "has_name ''VCF'' = ''_has_vcf''"
    by code_simp
  ultimately have "sample_script_of_row ''proj.ds.samples'' ''pid'' ''sid''
     [(''VCF'', scoped ''proj.ds.samples_extra'' ''vcf'')]
     [(''pid'', PStr ''P1''), (''sid'', PStr ''S1'')] =
   Inr (PStr ''P1'',
        \<lparr>op_key = ''sid'',
           op_sample = [(''sid'', PStr ''S1''), (''_has_vcf'', PBool False)]\<rparr>)"
    by (simp add: sample_script_of_row_def dropna_to_dict_def dict_del_def dict_comp_def
          scoped_def row_get_def add_has_flag_def)
  moreover have "\<not> (\<exists>c. CHR ''.'' \<notin> set c \<and>
          scoped ''proj.ds.samples_extra'' ''vcf'' = scoped ''proj.ds.samples'' c)"
    by (auto simp: scoped_def)
  ultimately show ?thesis by (rule conjI)
qed

subsection \<open>C7: the nested mappings of a schema\<close>

lemma prefixed_name_inj: "prefixed_name pfx n = prefixed_name pfx n' \<longleftrightarrow> n = n'"
  by (auto simp: prefixed_name_def split: option.splits)

lemma nested_store_other:
  "K \<noteq> name \<Longrightarrow> map_of (nested_store name f inner acc) K = map_of acc K"
  by (auto simp: nested_store_def Let_def AList.update_conv' split: option.splits)

lemma nested_store_fresh:
  "map_of acc name = None \<Longrightarrow>
   map_of (nested_store name f inner acc) name =
     (if repeated_record f \<or> inner \<noteq> None
      then Some (Mapping (if repeated_record f then Some ''nested'' else None) inner)
      else None)"
  by (auto simp: nested_store_def Let_def AList.update_conv' split: option.splits)

lemma nested_store_keys:
  "fst ` set (nested_store name f inner acc) \<subseteq> insert name (fst ` set acc)"
  by (auto simp: nested_store_def Let_def AList.dom_update split: option.splits)

lemma nested_loop_other:
  "K \<notin> prefixed_name pfx ` fname ` set fs \<Longrightarrow>
   map_of (nested_loop fs pfx acc) K = map_of acc K"
  by (induction fs arbitrary: acc) (simp_all add: nested_store_other)

lemma nested_loop_keys:
  "fst ` set (nested_loop fs pfx acc) \<subseteq> prefixed_name pfx ` fname ` set fs \<union> fst ` set acc"
proof (induction fs arbitrary: acc)
  case Nil
  show ?case by simp
next
  case (Cons f fs)
  have "fst ` set (nested_loop (f # fs) pfx acc) \<subseteq>
        prefixed_name pfx ` fname ` set fs \<union>
        fst ` set (nested_store (prefixed_name pfx (fname f)) f
                     (get_nested_mappings (ffields f) None) acc)"
    using Cons.IH by simp
  also have "\<dots> \<subseteq> prefixed_name pfx ` fname ` set (f # fs) \<union> fst ` set acc"
    using nested_store_keys[of "prefixed_name pfx (fname f)" f
            "get_nested_mappings (ffields f) None" acc]
    by auto
  finally show ?case .
qed

lemma nested_loop_entry:
  assumes "distinct (map fname fs)" and "f \<in> set fs"
    and "\<forall>g \<in> set fs. map_of acc (prefixed_name pfx (fname g)) = None"
  shows "map_of (nested_loop fs pfx acc) (prefixed_name pfx (fname f)) =
     (if repeated_record f \<or> get_nested_mappings (ffields f) None \<noteq> None
      then Some (Mapping (if repeated_record f then Some ''nested'' else None)
                   (get_nested_mappings (ffields f) None))
      else None)"
  using assms
proof (induction fs arbitrary: acc)
  case Nil
  then show ?case by simp
next
  case (Cons g fs)
  let ?acc' = "nested_store (prefixed_name pfx (fname g)) g
                 (get_nested_mappings (ffields g) None) acc"
  from Cons.prems have d: "distinct (map fname fs)" and g: "fname g \<notin> fname ` set fs"
    by simp_all
  show ?case
  proof (cases "f = g")
    case True
    from g have "prefixed_name pfx (fname g) \<notin> prefixed_name pfx ` fname ` set fs"
      by (auto simp: prefixed_name_inj)
    then have "map_of (nested_loop fs pfx ?acc') (prefixed_name pfx (fname g)) =
        map_of ?acc' (prefixed_name pfx (fname g))"
      by (rule nested_loop_other)
    moreover from Cons.prems have "map_of acc (prefixed_name pfx (fname g)) = None" by simp
    ultimately show ?thesis using True by (simp add: nested_store_fresh)
  next
    case False
    with Cons.prems have f: "f \<in> set fs" by simp
    have "\<forall>h \<in> set fs. map_of ?acc' (prefixed_name pfx (fname h)) = None"
    proof
      fix h assume h: "h \<in> set fs"
      with g have "fname h \<noteq> fname g" by (metis imageI)
      then have "prefixed_name pfx (fname h) \<noteq> prefixed_name pfx (fname g)"
        by (simp add: prefixed_name_inj)
      then have "map_of ?acc' (prefixed_name pfx (fname h)) =
          map_of acc (prefixed_name pfx (fname h))"
        by (rule nested_store_other)
      with Cons.prems h show "map_of ?acc' (prefixed_name pfx (fname h)) = None" by simp
    qed
    from Cons.IH[OF d f this] show ?thesis by simp
  qed
qed

text \<open>
  C7 (as amended). For a schema whose fields have pairwise different names:
  \<open>_get_nested_mappings\<close> returns None exactly when no field of the schema is a
  REPEATED RECORD and no field has children with mappings of their own. Otherwise it
  returns a dict whose keys are names of the schema's fields, each under the prefix
  when one is given, and in which a field has an entry exactly when it is a REPEATED
  RECORD or its children have mappings: the entry has type \<open>nested\<close> in the first case
  and no type otherwise, and its \<open>properties\<close> are what the function returns for the
  field's children with no prefix, so that a field below the top level is keyed by its
  own name inside the \<open>properties\<close> of its parent.
\<close>

theorem get_nested_mappings_entries:
  assumes "distinct (map fname sch)"
  shows "case get_nested_mappings sch pfx of
           None \<Rightarrow>
             (\<forall>f \<in> set sch. \<not> repeated_record f \<and> get_nested_mappings (ffields f) None = None)
         | Some nested \<Rightarrow>
             nested \<noteq> [] \<and>
             fst ` set nested \<subseteq> prefixed_name pfx ` fname ` set sch \<and>
             (\<forall>f \<in> set sch.
                map_of nested (prefixed_name pfx (fname f)) =
                  (if repeated_record f \<or> get_nested_mappings (ffields f) None \<noteq> None
                   then Some (Mapping (if repeated_record f then Some ''nested'' else None)
                                (get_nested_mappings (ffields f) None))
                   else None))"
proof -
  let ?nested = "nested_loop sch pfx []"
  have entry: "map_of ?nested (prefixed_name pfx (fname f)) =
      (if repeated_record f \<or> get_nested_mappings (ffields f) None \<noteq> None
       then Some (Mapping (if repeated_record f then Some ''nested'' else None)
                    (get_nested_mappings (ffields f) None))
       else None)" if "f \<in> set sch" for f
    using assms that by (rule nested_loop_entry) simp
  have keys: "fst ` set ?nested \<subseteq> prefixed_name pfx ` fname ` set sch"
    using nested_loop_keys[of sch pfx "[]"] by simp
  show ?thesis
  proof (cases "?nested = []")
    case True
    have "\<not> repeated_record f \<and> get_nested_mappings (ffields f) None = None"
      if "f \<in> set sch" for f
      using entry[OF that] True by (auto split: if_splits)
    with True show ?thesis by simp
  next
    case False
    with entry keys show ?thesis by simp
  qed
qed

theorem get_nested_mappings_entries_witness:
  "distinct (map fname
     [Field ''a'' ''RECORD'' ''REPEATED''
        [Field ''b'' ''RECORD'' ''REPEATED'' [Field ''c'' ''STRING'' ''NULLABLE'' []]],
      Field ''d'' ''STRING'' ''REPEATED'' []]) \<and>
   get_nested_mappings
     [Field ''a'' ''RECORD'' ''REPEATED''
        [Field ''b'' ''RECORD'' ''REPEATED'' [Field ''c'' ''STRING'' ''NULLABLE'' []]],
      Field ''d'' ''STRING'' ''REPEATED'' []] (Some ''t'') =
     Some [(''t.a'', Mapping (Some ''nested'') (Some [(''b'', Mapping (Some ''nested'') None)]))] \<and>
   map_of [(''t.a'', Mapping (Some ''nested'') (Some [(''b'', Mapping (Some ''nested'') None)]))]
     (prefixed_name (Some ''t'') ''d'') = None"
proof -
  define a where "a = Field ''a'' ''RECORD'' ''REPEATED''
        [Field ''b'' ''RECORD'' ''REPEATED'' [Field ''c'' ''STRING'' ''NULLABLE'' []]]"
  define d where "d = Field ''d'' ''STRING'' ''REPEATED'' []"
  define N where "N =
    [(''t.a'', Mapping (Some ''nested'') (Some [(''b'', Mapping (Some ''nested'') None)]))]"
  have h: "distinct (map fname [a, d])" by (simp add: a_def d_def)
  have ev: "get_nested_mappings [a, d] (Some ''t'') = Some N"
    by (simp add: a_def d_def N_def prefixed_name_def repeated_record_def nested_store_def)
  have inner: "get_nested_mappings (ffields d) None = None" by (simp add: d_def)
  from get_nested_mappings_entries[OF h, of "Some ''t''"] ev
  have "\<forall>f \<in> set [a, d].
      map_of N (prefixed_name (Some ''t'') (fname f)) =
        (if repeated_record f \<or> get_nested_mappings (ffields f) None \<noteq> None
         then Some (Mapping (if repeated_record f then Some ''nested'' else None)
                      (get_nested_mappings (ffields f) None))
         else None)"
    by simp
  then have "map_of N (prefixed_name (Some ''t'') (fname d)) =
        (if repeated_record d \<or> get_nested_mappings (ffields d) None \<noteq> None
         then Some (Mapping (if repeated_record d then Some ''nested'' else None)
                      (get_nested_mappings (ffields d) None))
         else None)"
    by simp
  with inner have "map_of N (prefixed_name (Some ''t'') ''d'') = None"
    by (simp add: d_def repeated_record_def)
  with h ev show ?thesis unfolding a_def d_def N_def by (intro conjI)
qed

text \<open>
  The key of a REPEATED RECORD below the top level is not its full dotted name: the
  field \<open>b\<close> inside \<open>a\<close>, of the table \<open>t\<close>, is kept under \<open>b\<close>, inside the properties
  of \<open>t.a\<close>. And a field with structured children gets no \<open>properties\<close> entry when
  none of its descendants is a REPEATED RECORD: for \<open>d\<close>, whose child \<open>e\<close> is a RECORD,
  the function returns None.
\<close>

theorem get_nested_mappings_counterexample:
  "get_nested_mappings
     [Field ''a'' ''RECORD'' ''REPEATED'' [Field ''b'' ''RECORD'' ''REPEATED'' []]]
     (Some ''t'') =
     Some [(''t.a'', Mapping (Some ''nested'') (Some [(''b'', Mapping (Some ''nested'') None)]))] \<and>
   get_nested_mappings
     [Field ''d'' ''RECORD'' ''NULLABLE''
        [Field ''e'' ''RECORD'' ''NULLABLE'' [Field ''g'' ''STRING'' ''NULLABLE'' []]]]
     (Some ''t'') = None"
  by (simp add: prefixed_name_def repeated_record_def nested_store_def)

subsection \<open>Facts about the merge-script generator\<close>

lemma has_name_prefix: "prefix ''_has_'' (has_name file_type)"
  by (simp add: has_name_def)

lemma add_has_flag_other:
  "\<not> (sublist t (snd fc) \<and> K = has_name (fst fc)) \<Longrightarrow>
   map_of (add_has_flag t fc d) K = map_of d K"
  by (cases fc) (auto simp: add_has_flag_def AList.update_conv')

lemma flags_other:
  "K \<notin> has_name ` fst ` {fc \<in> set sfc. sublist t (snd fc)} \<Longrightarrow>
   map_of (fold (add_has_flag t) sfc d) K = map_of d K"
proof (induction sfc arbitrary: d)
  case Nil
  show ?case by simp
next
  case (Cons fc sfc)
  from Cons.prems have 1: "\<not> (sublist t (snd fc) \<and> K = has_name (fst fc))"
    and 2: "K \<notin> has_name ` fst ` {fc' \<in> set sfc. sublist t (snd fc')}"
    by auto
  have "map_of (fold (add_has_flag t) (fc # sfc) d) K =
        map_of (fold (add_has_flag t) sfc (add_has_flag t fc d)) K" by simp
  also have "\<dots> = map_of (add_has_flag t fc d) K" using 2 by (rule Cons.IH)
  also have "\<dots> = map_of d K" using 1 by (rule add_has_flag_other)
  finally show ?case .
qed

lemma add_has_flag_keys:
  "fst ` set (add_has_flag t fc d) \<subseteq>
   fst ` set d \<union> (if sublist t (snd fc) then {has_name (fst fc)} else {})"
  by (cases fc) (auto simp: add_has_flag_def AList.dom_update)

lemma flags_keys:
  "fst ` set (fold (add_has_flag t) sfc d) \<subseteq>
   fst ` set d \<union> has_name ` fst ` {fc \<in> set sfc. sublist t (snd fc)}"
proof (induction sfc arbitrary: d)
  case Nil
  show ?case by simp
next
  case (Cons fc sfc)
  have "fst ` set (fold (add_has_flag t) (fc # sfc) d) \<subseteq>
        fst ` set (add_has_flag t fc d) \<union>
        has_name ` fst ` {fc' \<in> set sfc. sublist t (snd fc')}"
    using Cons.IH[of "add_has_flag t fc d"] by simp
  also have "\<dots> \<subseteq> fst ` set d \<union>
        has_name ` fst ` {fc' \<in> set (fc # sfc). sublist t (snd fc')}"
    using add_has_flag_keys[of t fc d] by (auto split: if_splits)
  finally show ?case .
qed


lemma scoped_has_dot: "CHR ''.'' \<in> set (scoped t k)"
  by (simp add: scoped_def)

text \<open>The name under which a column of the row is kept in the sample.\<close>

lemma sample_key_inj:
  assumes "CHR ''.'' \<notin> set sid"
  shows "(if k' \<noteq> sid then scoped t k' else k') = (if k \<noteq> sid then scoped t k else k)
           \<longleftrightarrow> k' = k"
  using assms scoped_has_dot[of t k] scoped_has_dot[of t k']
  by (auto simp: scoped_inj)

lemma sample_script_of_row_ok:
  assumes "distinct (map fst r)" and "map_of r pid = Some i" and "i \<noteq> NaN"
  shows "sample_script_of_row t pid sid sfc r =
     Inr (i, \<lparr>op_key = sid,
              op_sample = fold (add_has_flag t) sfc
                (dict_comp (\<lambda>k. if k \<noteq> sid then scoped t k else k)
                   (AList.delete pid (dropna_to_dict r)))\<rparr>)"
proof -
  have "map_of (dropna_to_dict r) pid = Some i"
    using assms(2,3) by (cases i) (simp_all add: dropna_lookup[OF assms(1)])
  then have "pid \<in> dom (map_of (dropna_to_dict r))" by (rule domI)
  then have "pid \<in> fst ` set (dropna_to_dict r)" by (simp add: dom_map_of_conv_image_fst)
  then have "dict_del (dropna_to_dict r) pid = Inr (AList.delete pid (dropna_to_dict r))"
    by (rule dict_del_ok)
  then show ?thesis by (simp add: sample_script_of_row_def row_get_def assms(2))
qed

lemma row_dict2_lookup:
  assumes "distinct (map fst r)" and "CHR ''.'' \<notin> set sid"
  shows "map_of (dict_comp (\<lambda>k. if k \<noteq> sid then scoped t k else k)
                   (AList.delete pid (dropna_to_dict r)))
           (if k \<noteq> sid then scoped t k else k) =
         (if k = pid then None else case map_of r k of Some NaN \<Rightarrow> None | c \<Rightarrow> c)"
proof -
  let ?d1 = "AList.delete pid (dropna_to_dict r)"
  let ?f = "\<lambda>k. if k \<noteq> sid then scoped t k else k"
  have d1: "distinct (map fst ?d1)"
    using dropna_distinct[OF assms(1)] by (simp add: AList.distinct_delete)
  have "map_of (fold (\<lambda>(k, v) acc. AList.update (?f k) v acc) ?d1 []) (?f k) =
        (case map_of ?d1 k of Some v \<Rightarrow> Some v | None \<Rightarrow> map_of [] (?f k))"
    by (rule fold_update_lookup[OF d1]) (simp add: sample_key_inj[OF assms(2)])
  then show ?thesis
    by (simp add: dict_comp_def AList.delete_conv' dropna_lookup[OF assms(1)]
          split: option.splits)
qed

lemma row_dict2_keys:
  assumes "distinct (map fst r)"
  shows "fst ` set (dict_comp (\<lambda>k. if k \<noteq> sid then scoped t k else k)
                   (AList.delete pid (dropna_to_dict r))) =
         (\<lambda>k. if k \<noteq> sid then scoped t k else k) `
           {k \<in> fst ` set r. k \<noteq> pid \<and> map_of r k \<noteq> Some NaN}"
proof -
  have "fst ` set (AList.delete pid (dropna_to_dict r)) =
      {k \<in> fst ` set r. k \<noteq> pid \<and> map_of r k \<noteq> Some NaN}"
    using dropna_keys[OF assms] by (auto simp: AList.delete_keys simp flip: set_map)
  then show ?thesis unfolding dict_comp_def fold_update_keys by simp
qed

subsection \<open>C4: the names of the fields of a merge operation\<close>

text \<open>
  C4 (as amended). For a row with a present entity ID, and a sample ID column whose
  name has no dot, \<open>_sample_scripts_by_id\<close> yields a merge operation whose sample
  holds every field of the null-dropped row except the entity-ID column, which is
  removed: the sample ID field under its own unscoped name, every other field \<open>k\<close>
  under \<open>table_name.k\<close>, each with the row's value unless a derived flag of the same
  name was written over it. The sample has no key besides these and the derived flags.
\<close>

theorem sample_script_field_names:
  assumes "distinct (map fst r)" and "map_of r pid = Some i" and "i \<noteq> NaN"
    and "CHR ''.'' \<notin> set sid"
  shows "\<exists>sample.
           sample_script_of_row t pid sid sfc r =
             Inr (i, \<lparr>op_key = sid, op_sample = sample\<rparr>) \<and>
           (\<forall>k v. map_of r k = Some v \<and> v \<noteq> NaN \<and> k \<noteq> pid \<longrightarrow>
              (if k \<noteq> sid then scoped t k else k)
                 \<in> has_name ` fst ` {fc \<in> set sfc. sublist t (snd fc)} \<or>
              map_of sample (if k \<noteq> sid then scoped t k else k) = Some v) \<and>
           (\<forall>K \<in> fst ` set sample.
              K \<in> has_name ` fst ` {fc \<in> set sfc. sublist t (snd fc)} \<or>
              (\<exists>k \<in> fst ` set r. k \<noteq> pid \<and> map_of r k \<noteq> Some NaN \<and>
                  K = (if k \<noteq> sid then scoped t k else k)))"
proof -
  let ?f = "\<lambda>k. if k \<noteq> sid then scoped t k else k"
  let ?d2 = "dict_comp ?f (AList.delete pid (dropna_to_dict r))"
  let ?sample = "fold (add_has_flag t) sfc ?d2"
  let ?flags = "has_name ` fst ` {fc \<in> set sfc. sublist t (snd fc)}"
  have run: "sample_script_of_row t pid sid sfc r =
      Inr (i, \<lparr>op_key = sid, op_sample = ?sample\<rparr>)"
    using assms(1-3) by (rule sample_script_of_row_ok)
  have kept: "?f k \<in> ?flags \<or> map_of ?sample (?f k) = Some v"
    if "map_of r k = Some v \<and> v \<noteq> NaN \<and> k \<noteq> pid" for k v
  proof (cases "?f k \<in> ?flags")
    case True
    then show ?thesis by simp
  next
    case False
    then have "map_of ?sample (?f k) = map_of ?d2 (?f k)" by (rule flags_other)
    also have "\<dots> = Some v"
      using that by (cases v) (simp_all add: row_dict2_lookup[OF assms(1,4)])
    finally show ?thesis by simp
  qed
  have keys: "K \<in> ?flags \<or>
      (\<exists>k \<in> fst ` set r. k \<noteq> pid \<and> map_of r k \<noteq> Some NaN \<and> K = ?f k)"
    if "K \<in> fst ` set ?sample" for K
  proof -
    from that flags_keys[of t sfc ?d2] have "K \<in> fst ` set ?d2 \<or> K \<in> ?flags" by auto
    then show ?thesis
    proof
      assume "K \<in> fst ` set ?d2"
      then have "K \<in> ?f ` {k \<in> fst ` set r. k \<noteq> pid \<and> map_of r k \<noteq> Some NaN}"
        by (simp only: row_dict2_keys[OF assms(1)])
      then show ?thesis by auto
    next
      assume "K \<in> ?flags"
      then show ?thesis by simp
    qed
  qed
  from run kept keys show ?thesis by blast
qed

theorem sample_script_field_names_witness:
  "distinct (map fst [(''pid'', PStr ''P1''), (''sid'', PStr ''S1''), (''center'', PStr ''A'')]) \<and>
   map_of [(''pid'', PStr ''P1''), (''sid'', PStr ''S1''), (''center'', PStr ''A'')] ''pid'' =
     Some (PStr ''P1'') \<and>
   PStr ''P1'' \<noteq> NaN \<and> CHR ''.'' \<notin> set ''sid'' \<and>
   (\<exists>sample.
      sample_script_of_row ''proj.ds.center'' ''pid'' ''sid'' []
        [(''pid'', PStr ''P1''), (''sid'', PStr ''S1''), (''center'', PStr ''A'')] =
        Inr (PStr ''P1'', \<lparr>op_key = ''sid'', op_sample = sample\<rparr>) \<and>
      map_of sample ''sid'' = Some (PStr ''S1'') \<and>
      map_of sample (scoped ''proj.ds.center'' ''center'') = Some (PStr ''A''))"
proof -
  define r where "r = [(''pid'', PStr ''P1''), (''sid'', PStr ''S1''), (''center'', PStr ''A'')]"
  have h1: "distinct (map fst r)" by (simp add: r_def)
  have h2: "map_of r ''pid'' = Some (PStr ''P1'')" by (simp add: r_def)
  have h3: "PStr ''P1'' \<noteq> NaN" by simp
  have h4: "CHR ''.'' \<notin> set ''sid''" by simp
  from sample_script_field_names[OF h1 h2 h3 h4, of "''proj.ds.center''" "[]"]
  obtain sample where run: "sample_script_of_row ''proj.ds.center'' ''pid'' ''sid'' [] r =
        Inr (PStr ''P1'', \<lparr>op_key = ''sid'', op_sample = sample\<rparr>)"
    and kept: "\<forall>k v. map_of r k = Some v \<and> v \<noteq> NaN \<and> k \<noteq> ''pid'' \<longrightarrow>
              (if k \<noteq> ''sid'' then scoped ''proj.ds.center'' k else k)
                 \<in> has_name ` fst ` {fc \<in> set []. sublist ''proj.ds.center'' (snd fc)} \<or>
              map_of sample (if k \<noteq> ''sid'' then scoped ''proj.ds.center'' k else k) = Some v"
    by blast
  from kept[rule_format, of "''sid''" "PStr ''S1''"]
  have a: "map_of sample ''sid'' = Some (PStr ''S1'')" by (simp add: r_def)
  from kept[rule_format, of "''center''" "PStr ''A''"]
  have b: "map_of sample (scoped ''proj.ds.center'' ''center'') = Some (PStr ''A'')"
    by (simp add: r_def)
  from run a b have "\<exists>sample.
      sample_script_of_row ''proj.ds.center'' ''pid'' ''sid'' [] r =
        Inr (PStr ''P1'', \<lparr>op_key = ''sid'', op_sample = sample\<rparr>) \<and>
      map_of sample ''sid'' = Some (PStr ''S1'') \<and>
      map_of sample (scoped ''proj.ds.center'' ''center'') = Some (PStr ''A'')"
    by (intro exI conjI)
  with h1 h2 h3 h4 show ?thesis unfolding r_def by (intro conjI)
qed

text \<open>
  The entity-ID column is a field of the null-dropped row, and the sample holds it
  neither prefixed nor as it is: it is deleted before the fields are renamed.
\<close>

theorem sample_script_drops_entity_id_counterexample:
  "(''pid'', PStr ''P1'') \<in>
     set (dropna_to_dict [(''pid'', PStr ''P1''), (''sid'', PStr ''S1''), (''center'', PStr ''A'')]) \<and>
   sample_script_of_row ''proj.ds.center'' ''pid'' ''sid'' []
     [(''pid'', PStr ''P1''), (''sid'', PStr ''S1''), (''center'', PStr ''A'')] =
     Inr (PStr ''P1'',
          \<lparr>op_key = ''sid'',
             op_sample = [(''sid'', PStr ''S1''), (''proj.ds.center.center'', PStr ''A'')]\<rparr>) \<and>
   map_of [(''sid'', PStr ''S1''), (''proj.ds.center.center'', PStr ''A'')]
     (scoped ''proj.ds.center'' ''pid'') = None \<and>
   map_of [(''sid'', PStr ''S1''), (''proj.ds.center.center'', PStr ''A'')] ''pid'' = None"
  by (simp add: sample_script_of_row_def dropna_to_dict_def dict_del_def dict_comp_def
        scoped_def row_get_def)

subsection \<open>Facts about the update script\<close>










subsection \<open>C1: merging the rows of one sample\<close>




subsection \<open>C3: documents of different tables\<close>

lemma first_separator_unique:
  assumes "c \<notin> set xs" and "c \<notin> set xs'" and "xs @ c # ys = xs' @ c # ys'"
  shows "xs = xs' \<and> ys = ys'"
  using assms
proof (induction xs arbitrary: xs')
  case Nil
  then show ?case by (cases xs') auto
next
  case (Cons a xs)
  then show ?case by (cases xs') auto
qed

lemma scoped_disjoint:
  assumes "tA \<noteq> tB" and "CHR ''.'' \<notin> set k" and "CHR ''.'' \<notin> set k'"
  shows "scoped tA k \<noteq> scoped tB k'"
proof
  assume "scoped tA k = scoped tB k'"
  then have "rev (tA @ CHR ''.'' # k) = rev (tB @ CHR ''.'' # k')"
    by (simp add: scoped_def)
  then have eq: "rev k @ CHR ''.'' # rev tA = rev k' @ CHR ''.'' # rev tB"
    by simp
  have a: "CHR ''.'' \<notin> set (rev k)" and b: "CHR ''.'' \<notin> set (rev k')"
    using assms(2,3) by simp_all
  from first_separator_unique[OF a b eq]
  have "rev tA = rev tB" by simp
  with assms(1) show False by simp
qed

lemma generate_elems:
  "x \<in> set (fst (generate f rows)) \<Longrightarrow> \<exists>r \<in> set rows. f r = Inr x"
proof (induction rows arbitrary: x)
  case Nil
  then show ?case by simp
next
  case (Cons r rows)
  show ?case
  proof (cases "f r")
    case (Inl e)
    with Cons.prems show ?thesis by simp
  next
    case (Inr y)
    obtain xs e where g: "generate f rows = (xs, e)" by (cases "generate f rows")
    with Inr Cons.prems have "x = y \<or> x \<in> set (fst (generate f rows))" by auto
    with Inr Cons.IH show ?thesis by auto
  qed
qed

lemma doc_of_row_keys:
  assumes "doc_of_row t pid r = Inr (i, doc)"
  shows "fst ` set doc \<subseteq> scoped t ` fst ` set r"
proof -
  from assms have doc: "doc = dict_comp (scoped t) (AList.delete pid (dropna_to_dict r))"
    by (auto simp: doc_of_row_def Let_def dict_del_def row_get_def
             split: if_splits sum.splits option.splits)
  have "fst ` set (AList.delete pid (dropna_to_dict r)) \<subseteq> fst ` set r"
    using AList.dom_delete_subset[of pid "dropna_to_dict r"]
    by (auto simp: dropna_to_dict_def)
  then have "scoped t ` fst ` set (AList.delete pid (dropna_to_dict r)) \<subseteq>
      scoped t ` fst ` set r"
    by (rule image_mono)
  then show ?thesis unfolding doc dict_comp_def fold_update_keys by simp
qed

lemma docs_by_id_keys:
  assumes "(i, doc) \<in> set (fst (docs_by_id df t pid))"
  shows "fst ` set doc \<subseteq> scoped t ` set (df_columns df)"
proof -
  from generate_elems[OF assms[unfolded docs_by_id_def]]
  obtain r where r: "r \<in> set (iterrows df)" and d: "doc_of_row t pid r = Inr (i, doc)"
    by auto
  from r have "fst ` set r \<subseteq> set (df_columns df)"
    by (auto simp: iterrows_def dest: set_zip_leftD)
  with doc_of_row_keys[OF d] show ?thesis by auto
qed

lemma partial_update_twice:
  assumes "fst ` set a \<inter> fst ` set b = {}"
  shows "partial_update (partial_update src a) b = partial_update (partial_update src b) a"
proof -
  have "dom (map_of a) \<inter> dom (map_of b) = {}"
    using assms by (simp add: dom_map_of_conv_image_fst)
  then have "map_of a ++ map_of b = map_of b ++ map_of a" by (rule map_add_comm)
  then have "(flat src ++ map_of a) ++ map_of b = (flat src ++ map_of b) ++ map_of a"
    by (metis map_add_assoc)
  then show ?thesis by (simp add: partial_update_def)
qed

lemma index_doc_commute:
  assumes "fst ` set (snd a) \<inter> fst ` set (snd b) = {}"
  shows "index_doc (index_doc st a) b = index_doc (index_doc st b) a"
proof -
  obtain i da where a: "a = (i, da)" by (cases a)
  obtain j db where b: "b = (j, db)" by (cases b)
  from assms have disj: "fst ` set da \<inter> fst ` set db = {}" by (simp add: a b)
  show ?thesis
  proof (cases "i = j")
    case True
    then show ?thesis
      by (simp add: a b index_doc_def partial_update_twice[OF disj])
  next
    case False
    then show ?thesis by (auto simp: a b index_doc_def fun_upd_twist)
  qed
qed

lemma index_doc_past_docs:
  assumes "\<forall>a \<in> set docs. fst ` set (snd a) \<inter> fst ` set (snd b) = {}"
  shows "index_doc (foldl index_doc st docs) b = foldl index_doc (index_doc st b) docs"
  using assms
proof (induction docs arbitrary: st)
  case Nil
  show ?case by simp
next
  case (Cons a docs)
  then have "index_doc (foldl index_doc (index_doc st a) docs) b =
      foldl index_doc (index_doc (index_doc st a) b) docs" by simp
  also have "index_doc (index_doc st a) b = index_doc (index_doc st b) a"
    using Cons.prems by (intro index_doc_commute) simp
  finally show ?case by simp
qed

lemma bulk_index_docs_commute:
  assumes "\<forall>a \<in> set docsA. \<forall>b \<in> set docsB. fst ` set (snd a) \<inter> fst ` set (snd b) = {}"
  shows "bulk_index_docs (bulk_index_docs st docsA) docsB =
         bulk_index_docs (bulk_index_docs st docsB) docsA"
  using assms unfolding bulk_index_docs_def
proof (induction docsB arbitrary: st)
  case Nil
  show ?case by simp
next
  case (Cons b docsB)
  have "foldl index_doc (foldl index_doc st docsA) (b # docsB) =
      foldl index_doc (index_doc (foldl index_doc st docsA) b) docsB" by simp
  also have "index_doc (foldl index_doc st docsA) b = foldl index_doc (index_doc st b) docsA"
    using Cons.prems by (intro index_doc_past_docs) simp
  also have "foldl index_doc (foldl index_doc (index_doc st b) docsA) docsB =
      foldl index_doc (foldl index_doc (index_doc st b) docsB) docsA"
    using Cons.prems by (intro Cons.IH) simp
  finally show ?case by simp
qed

lemma flat_at_index_doc:
  "flat_at (index_doc st (j, doc)) i =
     flat_at st i ++ (if j = i then map_of doc else Map.empty)"
  by (auto simp: flat_at_def index_doc_def partial_update_def split: option.splits)

lemma flat_at_bulk_index_docs:
  "flat_at (bulk_index_docs st docs) i = flat_at st i ++ fields_for i docs"
  unfolding bulk_index_docs_def
proof (induction docs arbitrary: st)
  case Nil
  show ?case by simp
next
  case (Cons d docs)
  obtain j doc where d: "d = (j, doc)" by (cases d)
  have "flat_at (foldl index_doc st (d # docs)) i =
      flat_at (index_doc st (j, doc)) i ++ fields_for i docs"
    using Cons.IH[of "index_doc st (j, doc)"] by (simp add: d)
  also have "\<dots> = flat_at st i ++ fields_for i (d # docs)"
    by (simp add: flat_at_index_doc d)
  finally show ?case .
qed

lemma dom_fields_for:
  "dom (fields_for i docs) \<subseteq> (\<Union>d \<in> set docs. fst ` set (snd d))"
proof (induction docs)
  case Nil
  show ?case by simp
next
  case (Cons d docs)
  obtain j doc where d: "d = (j, doc)" by (cases d)
  from Cons show ?case by (auto simp: d dom_map_of_conv_image_fst split: if_splits)
qed

text \<open>
  C3. For two tables of different names whose column names have no dot, the documents
  that \<open>_docs_by_id\<close> yields for one table and those it yields for the other can be
  applied, as partial updates, in either order of the tables: the store that results is
  the same. In it, every entity has the fields it had before, overwritten by the
  fields that the documents of the two tables contribute to it, and these two sets of
  fields have no name in common.
\<close>

theorem docs_of_two_tables_commute:
  assumes "tA \<noteq> tB"
    and "\<forall>c \<in> set (df_columns dfA). CHR ''.'' \<notin> set c"
    and "\<forall>c \<in> set (df_columns dfB). CHR ''.'' \<notin> set c"
  shows "bulk_index_docs (bulk_index_docs st (fst (docs_by_id dfA tA pid)))
           (fst (docs_by_id dfB tB pid)) =
         bulk_index_docs (bulk_index_docs st (fst (docs_by_id dfB tB pid)))
           (fst (docs_by_id dfA tA pid)) \<and>
         (\<forall>i. flat_at (bulk_index_docs (bulk_index_docs st (fst (docs_by_id dfA tA pid)))
                        (fst (docs_by_id dfB tB pid))) i =
                 flat_at st i ++
                   (fields_for i (fst (docs_by_id dfA tA pid)) ++
                    fields_for i (fst (docs_by_id dfB tB pid))) \<and>
               dom (fields_for i (fst (docs_by_id dfA tA pid))) \<inter>
               dom (fields_for i (fst (docs_by_id dfB tB pid))) = {})"
proof -
  let ?DA = "fst (docs_by_id dfA tA pid)"
  let ?DB = "fst (docs_by_id dfB tB pid)"
  have keysA: "fst ` set (snd a) \<subseteq> scoped tA ` set (df_columns dfA)" if "a \<in> set ?DA" for a
    using that docs_by_id_keys[of "fst a" "snd a" dfA tA pid] by simp
  have keysB: "fst ` set (snd b) \<subseteq> scoped tB ` set (df_columns dfB)" if "b \<in> set ?DB" for b
    using that docs_by_id_keys[of "fst b" "snd b" dfB tB pid] by simp
  have names: "scoped tA ` set (df_columns dfA) \<inter> scoped tB ` set (df_columns dfB) = {}"
    using scoped_disjoint[OF assms(1)] assms(2,3) by fastforce
  have disj: "\<forall>a \<in> set ?DA. \<forall>b \<in> set ?DB. fst ` set (snd a) \<inter> fst ` set (snd b) = {}"
    using keysA keysB names by blast
  have comm: "bulk_index_docs (bulk_index_docs st ?DA) ?DB =
      bulk_index_docs (bulk_index_docs st ?DB) ?DA"
    using disj by (rule bulk_index_docs_commute)
  have fields: "flat_at (bulk_index_docs (bulk_index_docs st ?DA) ?DB) i =
      flat_at st i ++ (fields_for i ?DA ++ fields_for i ?DB)" for i
    by (simp add: flat_at_bulk_index_docs)
  have apart: "dom (fields_for i ?DA) \<inter> dom (fields_for i ?DB) = {}" for i
  proof -
    have "dom (fields_for i ?DA) \<subseteq> scoped tA ` set (df_columns dfA)"
      using dom_fields_for[of i ?DA] keysA by blast
    moreover have "dom (fields_for i ?DB) \<subseteq> scoped tB ` set (df_columns dfB)"
      using dom_fields_for[of i ?DB] keysB by blast
    ultimately show ?thesis using names by blast
  qed
  from comm fields apart show ?thesis by simp
qed

theorem docs_of_two_tables_commute_witness:
  "''proj.ds.weight'' \<noteq> ''proj.ds.height'' \<and>
   bulk_index_docs
     (bulk_index_docs Map.empty
        (fst (docs_by_id \<lparr>df_columns = [''pid'', ''value''],
                           df_data = [[PStr ''P1'', PInt 70]]\<rparr> ''proj.ds.weight'' ''pid'')))
     (fst (docs_by_id \<lparr>df_columns = [''pid'', ''value''],
                        df_data = [[PStr ''P1'', PInt 180]]\<rparr> ''proj.ds.height'' ''pid'')) =
   bulk_index_docs
     (bulk_index_docs Map.empty
        (fst (docs_by_id \<lparr>df_columns = [''pid'', ''value''],
                           df_data = [[PStr ''P1'', PInt 180]]\<rparr> ''proj.ds.height'' ''pid'')))
     (fst (docs_by_id \<lparr>df_columns = [''pid'', ''value''],
                        df_data = [[PStr ''P1'', PInt 70]]\<rparr> ''proj.ds.weight'' ''pid'')) \<and>
   flat_at
     (bulk_index_docs
        (bulk_index_docs Map.empty
           (fst (docs_by_id \<lparr>df_columns = [''pid'', ''value''],
                              df_data = [[PStr ''P1'', PInt 70]]\<rparr> ''proj.ds.weight'' ''pid'')))
        (fst (docs_by_id \<lparr>df_columns = [''pid'', ''value''],
                           df_data = [[PStr ''P1'', PInt 180]]\<rparr> ''proj.ds.height'' ''pid'')))
     (PStr ''P1'') ''proj.ds.weight.value'' = Some (PInt 70) \<and>
   flat_at
     (bulk_index_docs
        (bulk_index_docs Map.empty
           (fst (docs_by_id \<lparr>df_columns = [''pid'', ''value''],
                              df_data = [[PStr ''P1'', PInt 70]]\<rparr> ''proj.ds.weight'' ''pid'')))
        (fst (docs_by_id \<lparr>df_columns = [''pid'', ''value''],
                           df_data = [[PStr ''P1'', PInt 180]]\<rparr> ''proj.ds.height'' ''pid'')))
     (PStr ''P1'') ''proj.ds.height.value'' = Some (PInt 180)"
proof -
  define dfA where "dfA = \<lparr>df_columns = [''pid'', ''value''],
                           df_data = [[PStr ''P1'', PInt 70]]\<rparr>"
  define dfB where "dfB = \<lparr>df_columns = [''pid'', ''value''],
                           df_data = [[PStr ''P1'', PInt 180]]\<rparr>"
  define st where "st = (Map.empty :: store)"
  have h1: "''proj.ds.weight'' \<noteq> ''proj.ds.height''" by simp
  have h2: "\<forall>c \<in> set (df_columns dfA). CHR ''.'' \<notin> set c" by (simp add: dfA_def)
  have h3: "\<forall>c \<in> set (df_columns dfB). CHR ''.'' \<notin> set c" by (simp add: dfB_def)
  have dA: "fst (docs_by_id dfA ''proj.ds.weight'' ''pid'') =
      [(PStr ''P1'', [(''proj.ds.weight.value'', PInt 70)])]"
    by (simp add: dfA_def docs_by_id_def iterrows_def doc_of_row_def dropna_to_dict_def
          dict_del_def dict_comp_def scoped_def row_get_def)
  have dB: "fst (docs_by_id dfB ''proj.ds.height'' ''pid'') =
      [(PStr ''P1'', [(''proj.ds.height.value'', PInt 180)])]"
    by (simp add: dfB_def docs_by_id_def iterrows_def doc_of_row_def dropna_to_dict_def
          dict_del_def dict_comp_def scoped_def row_get_def)
  note inst = docs_of_two_tables_commute[OF h1 h2 h3, of st "''pid''"]
  from inst have comm: "bulk_index_docs
      (bulk_index_docs st (fst (docs_by_id dfA ''proj.ds.weight'' ''pid'')))
      (fst (docs_by_id dfB ''proj.ds.height'' ''pid'')) =
    bulk_index_docs
      (bulk_index_docs st (fst (docs_by_id dfB ''proj.ds.height'' ''pid'')))
      (fst (docs_by_id dfA ''proj.ds.weight'' ''pid''))"
    by (rule conjunct1)
  from inst have fl: "flat_at (bulk_index_docs
      (bulk_index_docs st (fst (docs_by_id dfA ''proj.ds.weight'' ''pid'')))
      (fst (docs_by_id dfB ''proj.ds.height'' ''pid''))) (PStr ''P1'') =
    flat_at st (PStr ''P1'') ++
      (fields_for (PStr ''P1'') (fst (docs_by_id dfA ''proj.ds.weight'' ''pid'')) ++
       fields_for (PStr ''P1'') (fst (docs_by_id dfB ''proj.ds.height'' ''pid'')))"
    by blast
  have w: "flat_at (bulk_index_docs
      (bulk_index_docs st (fst (docs_by_id dfA ''proj.ds.weight'' ''pid'')))
      (fst (docs_by_id dfB ''proj.ds.height'' ''pid''))) (PStr ''P1'')
      ''proj.ds.weight.value'' = Some (PInt 70)"
    unfolding fl by (simp add: dA dB st_def flat_at_def map_add_def)
  have h: "flat_at (bulk_index_docs
      (bulk_index_docs st (fst (docs_by_id dfA ''proj.ds.weight'' ''pid'')))
      (fst (docs_by_id dfB ''proj.ds.height'' ''pid''))) (PStr ''P1'')
      ''proj.ds.height.value'' = Some (PInt 180)"
    unfolding fl by (simp add: dA dB st_def flat_at_def map_add_def)
  from h1 comm w h show ?thesis unfolding dfA_def dfB_def st_def by (intro conjI)
qed

end
